theory Spec2Isabelle
  imports Complex_Main
begin

section \<open>The training driver \<open>train_models.py\<close>\<close>

text \<open>
  The script is sequential glue over a deep-learning framework. Its own logic is the
  order of the calls it makes, the arguments it passes, the IOU it computes from the
  validation counts and the decision to write a checkpoint. The model keeps exactly that:
  every call into the framework or into the modules \<open>utils.data\<close>, \<open>models\<close> and
  \<open>train_ggcnn\<close> is an event appended to a history, the behaviour of the callee is
  read from an environment that may depend on the whole history, and every exception is
  a value.

  Python floats are idealised as rationals: \<open>a / b\<close> on two ints is the exact quotient
  and \<open>>\<close> is the order of the rationals.
\<close>

subsection \<open>Data\<close>

type_synonym pyfloat = rat

text \<open>The \<open>Namespace\<close> that \<open>parse_args\<close> returns, one field per \<open>add_argument\<close>.\<close>

record args =
  network :: string
  dataset :: string
  dataset_path :: string
  use_depth :: int
  use_rgb :: int
  split :: pyfloat
  ds_rotate :: pyfloat
  num_workers :: int
  batch_size :: int
  epochs :: int
  batches_per_epoch :: int
  val_batches :: int
  description :: string
  vis :: bool

text \<open>
  The keyword arguments of \<open>Dataset(file_path, start=, end=, ds_rotate=, random_rotate=,
  random_zoom=, include_depth=, include_rgb=)\<close>; \<open>stop\<close> stands for \<open>end\<close> and
  \<open>rotate\<close> for \<open>ds_rotate\<close>. A constructed object is identified with the arguments
  it was constructed from.
\<close>

record grasp_dataset =
  file_path :: string
  start :: pyfloat
  stop :: pyfloat
  rotate :: pyfloat
  random_rotate :: bool
  random_zoom :: bool
  include_depth :: int
  include_rgb :: int

text \<open>\<open>torch.utils.data.DataLoader(dataset, batch_size=, shuffle=, num_workers=)\<close>.\<close>

record data_loader =
  loader_dataset :: grasp_dataset
  loader_batch_size :: int
  shuffle :: bool
  loader_num_workers :: int

text \<open>
  The dicts returned by \<open>train\<close> (keys \<open>loss\<close>, \<open>losses\<close>) and by \<open>validate\<close> (the same
  keys and \<open>correct\<close>, \<open>failed\<close>). \<open>losses\<close> is a dict iterated with \<open>items()\<close>, kept
  as an association list in iteration order.
\<close>

record train_results =
  loss :: pyfloat
  losses :: "(string \<times> pyfloat) list"

record test_results = train_results +
  correct :: int
  failed :: int

text \<open>
  Formatted strings are kept as the template and its arguments: \<open>Fmt t xs\<close> is
  \<open>t % xs\<close> or \<open>t.format(xs)\<close>, and \<open>A_title s\<close> is the argument \<open>s.title()\<close>.
\<close>

datatype fmt_arg = A_int int | A_float pyfloat | A_str string | A_title string

datatype pystr = Str string | Fmt string "fmt_arg list"

text \<open>\<open>Os_path_join d x\<close> is \<open>os.path.join(d, x)\<close>.\<close>

datatype path = Os_path_join string pystr

datatype out = Stdout | To_file path

datatype exn = ZeroDivisionError | External string

text \<open>
  The calls the script makes, each with the arguments that the script chooses. The handles
  that are only passed on (the summary writer, the network, the device, the optimizer, the
  open file) are left out; a dataset and a loader are given by their constructor arguments.
  \<open>Network n\<close> is the call \<open>ggcnn(input_channels=n)\<close> of the class that \<open>get_network\<close> returned,
  \<open>Summary s out\<close> is \<open>summary(net, s)\<close> printing to \<open>sys.stdout\<close> as it is bound at the call,
  and \<open>Mkdir p parents\<close> is \<open>Path(p).mkdir(parents=parents)\<close>.
\<close>

datatype call =
    SummaryWriter string
  | Logging_info pystr
  | Get_dataset string
  | Dataset grasp_dataset
  | DataLoader data_loader
  | Get_network string
  | Network int
  | Torch_device string
  | Net_to string
  | Net_parameters
  | Optim_Adam
  | Summary "int \<times> int \<times> int" out
  | Open_file path string
  | Close_file path
  | Train int data_loader int bool
  | Tb_add_scalar string pyfloat int
  | Validate data_loader int
  | Torch_save_net path
  | Net_state_dict
  | Torch_save_state_dict path
  | Path_exists string
  | Shutil_rmtree string
  | Mkdir string bool
  | Print_args args

text \<open>
  The environment: whether a call made after a given history raises, and what \<open>train\<close>,
  \<open>validate\<close> and \<open>Path.exists\<close> return. The result functions are read at the history
  that already holds the call.
\<close>

record env =
  raises :: "call list \<Rightarrow> call \<Rightarrow> exn option"
  train_returns :: "call list \<Rightarrow> train_results"
  validate_returns :: "call list \<Rightarrow> test_results"
  exists_returns :: "call list \<Rightarrow> bool"

subsection \<open>Actions: a history of calls and a result or an exception\<close>

type_synonym 'a action = "call list \<Rightarrow> (exn + 'a) \<times> call list"

definition return :: "'a \<Rightarrow> 'a action" where
  "return x h = (Inr x, h)"

definition throw :: "exn \<Rightarrow> 'a action" where
  "throw e h = (Inl e, h)"

definition bind :: "'a action \<Rightarrow> ('a \<Rightarrow> 'b action) \<Rightarrow> 'b action" where
  "bind m f h = (case m h of (Inl e, h') \<Rightarrow> (Inl e, h') | (Inr x, h') \<Rightarrow> f x h')"

text \<open>A call is recorded whether or not it raises.\<close>

definition call :: "env \<Rightarrow> call \<Rightarrow> unit action" where
  "call env c h =
     (case raises env h c of
        Some e \<Rightarrow> (Inl e, h @ [c])
      | None \<Rightarrow> (Inr (), h @ [c]))"

fun do_calls :: "env \<Rightarrow> call list \<Rightarrow> unit action" where
  "do_calls env [] = return ()"
| "do_calls env (c # cs) = bind (call env c) (\<lambda>_. do_calls env cs)"

definition train :: "env \<Rightarrow> int \<Rightarrow> data_loader \<Rightarrow> int \<Rightarrow> bool \<Rightarrow> train_results action" where
  "train env epoch train_data batches v =
     bind (call env (Train epoch train_data batches v)) (\<lambda>_ h. (Inr (train_returns env h), h))"

definition validate :: "env \<Rightarrow> data_loader \<Rightarrow> int \<Rightarrow> test_results action" where
  "validate env val_data batches =
     bind (call env (Validate val_data batches)) (\<lambda>_ h. (Inr (validate_returns env h), h))"

definition path_exists :: "env \<Rightarrow> string \<Rightarrow> bool action" where
  "path_exists env p =
     bind (call env (Path_exists p)) (\<lambda>_ h. (Inr (exists_returns env h), h))"

text \<open>Python's \<open>a / b\<close> on ints.\<close>

definition truediv :: "int \<Rightarrow> int \<Rightarrow> pyfloat action" where
  "truediv a b = (if b = 0 then throw ZeroDivisionError else return (of_int a / of_int b))"

subsection \<open>\<open>parse_args\<close>\<close>

text \<open>
  The command line after argparse has split it and converted each value with the
  argument's \<open>type\<close>: one entry per option given, in the order given.
\<close>

datatype cli_opt =
    Opt_network string
  | Opt_dataset string
  | Opt_dataset_path string
  | Opt_use_depth int
  | Opt_use_rgb int
  | Opt_split pyfloat
  | Opt_ds_rotate pyfloat
  | Opt_num_workers int
  | Opt_batch_size int
  | Opt_epochs int
  | Opt_batches_per_epoch int
  | Opt_val_batches int
  | Opt_description string
  | Opt_vis

definition defaults :: args where
  "defaults =
     \<lparr>network = ''ggcnn'', dataset = '''', dataset_path = '''', use_depth = 1, use_rgb = 0,
      split = 9 / 10, ds_rotate = 0, num_workers = 8, batch_size = 8, epochs = 50,
      batches_per_epoch = 1000, val_batches = 250, description = '''', vis = False\<rparr>"

fun store :: "args \<Rightarrow> cli_opt \<Rightarrow> args" where
  "store a (Opt_network s) = a\<lparr>network := s\<rparr>"
| "store a (Opt_dataset s) = a\<lparr>dataset := s\<rparr>"
| "store a (Opt_dataset_path s) = a\<lparr>dataset_path := s\<rparr>"
| "store a (Opt_use_depth n) = a\<lparr>use_depth := n\<rparr>"
| "store a (Opt_use_rgb n) = a\<lparr>use_rgb := n\<rparr>"
| "store a (Opt_split x) = a\<lparr>split := x\<rparr>"
| "store a (Opt_ds_rotate x) = a\<lparr>ds_rotate := x\<rparr>"
| "store a (Opt_num_workers n) = a\<lparr>num_workers := n\<rparr>"
| "store a (Opt_batch_size n) = a\<lparr>batch_size := n\<rparr>"
| "store a (Opt_epochs n) = a\<lparr>epochs := n\<rparr>"
| "store a (Opt_batches_per_epoch n) = a\<lparr>batches_per_epoch := n\<rparr>"
| "store a (Opt_val_batches n) = a\<lparr>val_batches := n\<rparr>"
| "store a (Opt_description s) = a\<lparr>description := s\<rparr>"
| "store a Opt_vis = a\<lparr>vis := True\<rparr>"

definition parse_args :: "cli_opt list \<Rightarrow> args" where
  "parse_args argv = foldl store defaults argv"

subsection \<open>\<open>run\<close>\<close>

definition train_dataset :: "args \<Rightarrow> grasp_dataset" where
  "train_dataset a =
     \<lparr>file_path = dataset_path a, start = 0, stop = split a, rotate = ds_rotate a,
      random_rotate = True, random_zoom = True,
      include_depth = use_depth a, include_rgb = use_rgb a\<rparr>"

definition train_data :: "args \<Rightarrow> data_loader" where
  "train_data a =
     \<lparr>loader_dataset = train_dataset a, loader_batch_size = batch_size a, shuffle = True,
      loader_num_workers = num_workers a\<rparr>"

definition val_dataset :: "args \<Rightarrow> grasp_dataset" where
  "val_dataset a =
     \<lparr>file_path = dataset_path a, start = split a, stop = 1, rotate = ds_rotate a,
      random_rotate = True, random_zoom = True,
      include_depth = use_depth a, include_rgb = use_rgb a\<rparr>"

definition val_data :: "args \<Rightarrow> data_loader" where
  "val_data a =
     \<lparr>loader_dataset = val_dataset a, loader_batch_size = 1, shuffle = False,
      loader_num_workers = num_workers a\<rparr>"

definition input_channels :: "args \<Rightarrow> int" where
  "input_channels a = 1 * use_depth a + 3 * use_rgb a"

text \<open>
  Lines 55 to 98 of \<open>run\<close> are straight-line calls; each list holds them in the order
  in which they are made.
\<close>

definition load_dataset_calls :: "args \<Rightarrow> string \<Rightarrow> call list" where
  "load_dataset_calls a log_folder =
     [SummaryWriter log_folder,
      Logging_info (Fmt ''Loading {} Dataset...'' [A_title (dataset a)]),
      Get_dataset (dataset a),
      Dataset (train_dataset a),
      DataLoader (train_data a),
      Dataset (val_dataset a),
      DataLoader (val_data a),
      Logging_info (Str ''Done'')]"

definition load_network_calls :: "args \<Rightarrow> call list" where
  "load_network_calls a =
     [Logging_info (Str ''Loading Network...''),
      Get_network (network a),
      Network (input_channels a),
      Torch_device ''cuda:0'',
      Net_to ''cuda:0'',
      Net_parameters,
      Optim_Adam,
      Logging_info (Str ''Done'')]"

definition print_architecture_calls :: "args \<Rightarrow> string \<Rightarrow> call list" where
  "print_architecture_calls a save_folder =
     [Summary (input_channels a, 300, 300) Stdout,
      Open_file (Os_path_join save_folder (Str ''arch.txt'')) ''w'',
      Summary (input_channels a, 300, 300)
        (To_file (Os_path_join save_folder (Str ''arch.txt''))),
      Close_file (Os_path_join save_folder (Str ''arch.txt''))]"

text \<open>\<open>for n, l in results['losses'].items(): tb.add_scalar(prefix + n, l, epoch)\<close>.\<close>

definition losses_calls :: "string \<Rightarrow> (string \<times> pyfloat) list \<Rightarrow> int \<Rightarrow> call list" where
  "losses_calls prefix ls epoch = map (\<lambda>(n, l). Tb_add_scalar (prefix @ n) l epoch) ls"

text \<open>
  The body of the epoch loop, lines 102 to 130; it returns the new \<open>best_iou\<close>. The quotient
  \<open>correct / (correct + failed)\<close> is computed three times, as in the source, and the first of
  these divisions is evaluated before \<open>logging.info\<close> is called.
\<close>

definition log_validation :: "env \<Rightarrow> test_results \<Rightarrow> int \<Rightarrow> unit action" where
  "log_validation env tr epoch =
     bind (truediv (correct tr) (correct tr + failed tr)) (\<lambda>q.
     bind (call env (Logging_info (Fmt ''%d/%d = %f''
             [A_int (correct tr), A_int (correct tr + failed tr), A_float q]))) (\<lambda>_.
     bind (truediv (correct tr) (correct tr + failed tr)) (\<lambda>q'.
     bind (call env (Tb_add_scalar ''loss/IOU'' q' epoch)) (\<lambda>_.
     bind (call env (Tb_add_scalar ''loss/val_loss'' (loss tr) epoch)) (\<lambda>_.
     do_calls env (losses_calls ''val_loss/'' (losses tr) epoch))))))"

definition save_best :: "env \<Rightarrow> string \<Rightarrow> int \<Rightarrow> test_results \<Rightarrow> pyfloat \<Rightarrow> pyfloat action" where
  "save_best env save_folder epoch tr best_iou =
     bind (truediv (correct tr) (correct tr + failed tr)) (\<lambda>iou.
       if iou > best_iou \<or> epoch = 0 \<or> epoch mod 10 = 0 then
         bind (call env (Torch_save_net (Os_path_join save_folder
                 (Fmt ''epoch_%02d_iou_%0.2f'' [A_int epoch, A_float iou])))) (\<lambda>_.
         bind (call env Net_state_dict) (\<lambda>_.
         bind (call env (Torch_save_state_dict (Os_path_join save_folder
                 (Fmt ''epoch_%02d_iou_%0.2f_statedict.pt'' [A_int epoch, A_float iou])))) (\<lambda>_.
         return iou)))
       else return best_iou)"

definition epoch_body :: "env \<Rightarrow> args \<Rightarrow> string \<Rightarrow> int \<Rightarrow> pyfloat \<Rightarrow> pyfloat action" where
  "epoch_body env a save_folder epoch best_iou =
     bind (call env (Logging_info (Fmt ''Beginning Epoch {:02d}'' [A_int epoch]))) (\<lambda>_.
     bind (train env epoch (train_data a) (batches_per_epoch a) (vis a)) (\<lambda>trn.
     bind (call env (Tb_add_scalar ''loss/train_loss'' (loss trn) epoch)) (\<lambda>_.
     bind (do_calls env (losses_calls ''train_loss/'' (losses trn) epoch)) (\<lambda>_.
     bind (call env (Logging_info (Str ''Validating...''))) (\<lambda>_.
     bind (validate env (val_data a) (val_batches a)) (\<lambda>tr.
     bind (log_validation env tr epoch) (\<lambda>_.
     save_best env save_folder epoch tr best_iou)))))))"

text \<open>The loop \<open>for epoch in range(args.epochs)\<close>, with \<open>best_iou\<close> carried along.\<close>

fun epoch_loop :: "env \<Rightarrow> args \<Rightarrow> string \<Rightarrow> int list \<Rightarrow> pyfloat \<Rightarrow> pyfloat action" where
  "epoch_loop env a save_folder [] best_iou = return best_iou"
| "epoch_loop env a save_folder (epoch # rest) best_iou =
     bind (epoch_body env a save_folder epoch best_iou) (\<lambda>best_iou'.
       epoch_loop env a save_folder rest best_iou')"

text \<open>\<open>range(n)\<close>: the indices from 0 up to \<open>n - 1\<close>, none when \<open>n \<le> 0\<close>.\<close>

definition range_py :: "int \<Rightarrow> int list" where
  "range_py n = [0..n - 1]"

definition run :: "env \<Rightarrow> args \<Rightarrow> string \<Rightarrow> string \<Rightarrow> unit action" where
  "run env a save_folder log_folder =
     bind (do_calls env (load_dataset_calls a log_folder)) (\<lambda>_.
     bind (do_calls env (load_network_calls a)) (\<lambda>_.
     bind (do_calls env (print_architecture_calls a save_folder)) (\<lambda>_.
     bind (epoch_loop env a save_folder (range_py (epochs a)) 0) (\<lambda>_.
     return ()))))"

subsection \<open>\<open>main\<close>\<close>

text \<open>
  \<open>Path.joinpath\<close> followed by \<open>as_posix\<close>, for a normalised left operand and a relative
  right operand, which is all the script uses. \<open>home\<close> is \<open>Path.home()\<close>.
\<close>

definition joinpath :: "string \<Rightarrow> string \<Rightarrow> string" where
  "joinpath p q = (if p = ''/'' then p @ q else p @ ''/'' @ q)"

definition GMDATA_PATH :: "string \<Rightarrow> string" where
  "GMDATA_PATH home = joinpath home ''Project/gmdata''"

definition DATASET_PATH :: "string \<Rightarrow> string" where
  "DATASET_PATH home = joinpath (GMDATA_PATH home) ''datasets/train_datasets''"

definition INPUT_DATA_PATH :: "string \<Rightarrow> string" where
  "INPUT_DATA_PATH home = joinpath (DATASET_PATH home) ''gg_data/small_data''"

definition OUT_PATH :: "string \<Rightarrow> string" where
  "OUT_PATH home = joinpath (GMDATA_PATH home) ''datasets/models/gg/small_data''"

text \<open>The assignments to \<open>args\<close> at the head of one iteration of the loop over \<open>t\<close>.\<close>

definition configure :: "string \<Rightarrow> args \<Rightarrow> string \<Rightarrow> args" where
  "configure home a t =
     a\<lparr>dataset := (if t = ''cor'' then ''cornell'' else ''jacquard''),
       description := ''train '' @ t,
       dataset_path := joinpath (INPUT_DATA_PATH home) t\<rparr>"

fun main_loop :: "env \<Rightarrow> string \<Rightarrow> args \<Rightarrow> string list \<Rightarrow> unit action" where
  "main_loop env home a [] = return ()"
| "main_loop env home a (t # ts) =
     bind (path_exists env (joinpath (OUT_PATH home) t)) (\<lambda>ex.
     bind (if ex then call env (Shutil_rmtree (joinpath (OUT_PATH home) t)) else return ()) (\<lambda>_.
     bind (call env (Mkdir (joinpath (joinpath (OUT_PATH home) t) ''logs'') True)) (\<lambda>_.
     bind (call env (Print_args (configure home a t))) (\<lambda>_.
     bind (run env (configure home a t) (joinpath (OUT_PATH home) t)
             (joinpath (joinpath (OUT_PATH home) t) ''logs'')) (\<lambda>_.
     main_loop env home (configure home a t) ts)))))"

definition main :: "env \<Rightarrow> string \<Rightarrow> cli_opt list \<Rightarrow> unit action" where
  "main env home argv =
     main_loop env home ((parse_args argv)\<lparr>network := ''ggcnn'', epochs := 100\<rparr>)
       [''gmd'', ''cor'', ''jaq'']"

section \<open>Notions used in the statements\<close>

subsection \<open>Invariants of actions\<close>

text \<open>
  \<open>emits P m\<close>: whatever the history and the outcome, \<open>m\<close> only appends calls to the
  history, and every call it appends satisfies \<open>P\<close>.
\<close>

definition emits :: "(call \<Rightarrow> bool) \<Rightarrow> 'a action \<Rightarrow> bool" where
  "emits P m = (\<forall>h. \<exists>t. snd (m h) = h @ t \<and> list_all P t)"

text \<open>
  The calls to \<open>validate\<close>.
\<close>

fun is_Validate :: "call \<Rightarrow> bool" where
  "is_Validate (Validate ld b) = True"
| "is_Validate _ = False"

text \<open>
  \<open>fatal env hs k\<close> is the exception that the \<open>k\<close>-th call of the history \<open>hs\<close> leads
  to: the one the call raises, or \<open>ZeroDivisionError\<close> when the call is a \<open>validate\<close> that returns
  counts whose sum is zero.
\<close>

definition fatal :: "env \<Rightarrow> call list \<Rightarrow> nat \<Rightarrow> exn option" where
  "fatal env hs k =
     (case raises env (take k hs) (hs ! k) of
        Some e \<Rightarrow> Some e
      | None \<Rightarrow>
          if is_Validate (hs ! k) \<and>
             correct (validate_returns env (take (Suc k) hs)) +
             failed (validate_returns env (take (Suc k) hs)) = 0
          then Some ZeroDivisionError else None)"

text \<open>
  \<open>stops_at_fatal env m\<close>: \<open>m\<close> only appends calls, and a call with a fatal outcome is the
  last one it makes, with that exception as the result of \<open>m\<close>.
\<close>

definition stops_at_fatal :: "env \<Rightarrow> 'a action \<Rightarrow> bool" where
  "stops_at_fatal env m =
     (\<forall>h r h'. m h = (r, h') \<longrightarrow>
        (\<exists>t. h' = h @ t) \<and>
        (\<forall>k e. length h \<le> k \<and> k < length h' \<and> fatal env h' k = Some e \<longrightarrow>
           r = Inl e \<and> Suc k = length h'))"

subsection \<open>The calls of one epoch\<close>

text \<open>
  The first two calls of the loop body (lines 102 to 104).
\<close>

definition begin_calls :: "args \<Rightarrow> int \<Rightarrow> call list" where
  "begin_calls a epoch =
     [Logging_info (Fmt ''Beginning Epoch {:02d}'' [A_int epoch]),
      Train epoch (train_data a) (batches_per_epoch a) (vis a)]"

text \<open>
  The scalars written after \<open>train\<close> returned \<open>trn\<close> (lines 107 to 109).
\<close>

definition train_log_calls :: "train_results \<Rightarrow> int \<Rightarrow> call list" where
  "train_log_calls trn epoch =
     Tb_add_scalar ''loss/train_loss'' (loss trn) epoch #
     losses_calls ''train_loss/'' (losses trn) epoch"

text \<open>
  The history at which \<open>validate\<close> returns in an epoch begun at history \<open>h\<close>, when no call
  up to there raises.
\<close>

definition upto_validate :: "env \<Rightarrow> args \<Rightarrow> int \<Rightarrow> call list \<Rightarrow> call list" where
  "upto_validate env a epoch h =
     h @ begin_calls a epoch @
     train_log_calls (train_returns env (h @ begin_calls a epoch)) epoch @
     [Logging_info (Str ''Validating...''), Validate (val_data a) (val_batches a)]"

text \<open>
  What \<open>validate\<close> returns in that epoch: the \<open>test_results\<close> of line 113.
\<close>

definition epoch_results :: "env \<Rightarrow> args \<Rightarrow> int \<Rightarrow> call list \<Rightarrow> test_results" where
  "epoch_results env a epoch h = validate_returns env (upto_validate env a epoch h)"

text \<open>
  The IOU of the specification: \<open>correct / (correct + failed)\<close>.
\<close>

definition iou_of :: "test_results \<Rightarrow> pyfloat" where
  "iou_of tr = of_int (correct tr) / of_int (correct tr + failed tr)"

text \<open>
  The calls of lines 114 to 122, for validation results \<open>tr\<close> with IOU \<open>iou_of tr\<close>.
\<close>

definition validation_log_calls :: "test_results \<Rightarrow> int \<Rightarrow> call list" where
  "validation_log_calls tr epoch =
     [Logging_info (Fmt ''%d/%d = %f''
        [A_int (correct tr), A_int (correct tr + failed tr), A_float (iou_of tr)]),
      Tb_add_scalar ''loss/IOU'' (iou_of tr) epoch,
      Tb_add_scalar ''loss/val_loss'' (loss tr) epoch] @
     losses_calls ''val_loss/'' (losses tr) epoch"

text \<open>
  The calls of lines 127 to 129, for an epoch index and an IOU.
\<close>

definition checkpoint_calls :: "string \<Rightarrow> int \<Rightarrow> pyfloat \<Rightarrow> call list" where
  "checkpoint_calls save_folder epoch iou =
     [Torch_save_net (Os_path_join save_folder
        (Fmt ''epoch_%02d_iou_%0.2f'' [A_int epoch, A_float iou])),
      Net_state_dict,
      Torch_save_state_dict (Os_path_join save_folder
        (Fmt ''epoch_%02d_iou_%0.2f_statedict.pt'' [A_int epoch, A_float iou]))]"

subsection \<open>The calls that an epoch and a run can make\<close>

text \<open>
  The calls that the body of the loop can make in the epoch of a given index.
\<close>

definition epoch_call :: "args \<Rightarrow> string \<Rightarrow> int \<Rightarrow> call \<Rightarrow> bool" where
  "epoch_call a save_folder epoch c =
     (c \<in> set (begin_calls a epoch) \<or>
      (\<exists>n l. c = Tb_add_scalar n l epoch) \<or>
      c = Logging_info (Str ''Validating...'') \<or>
      c = Validate (val_data a) (val_batches a) \<or>
      (\<exists>x y q. c = Logging_info (Fmt ''%d/%d = %f'' [A_int x, A_int y, A_float q])) \<or>
      (\<exists>iou. c \<in> set (checkpoint_calls save_folder epoch iou)))"

text \<open>
  The calls that \<open>run\<close> can make.
\<close>

definition run_call :: "args \<Rightarrow> string \<Rightarrow> string \<Rightarrow> call \<Rightarrow> bool" where
  "run_call a save_folder log_folder c =
     (c \<in> set (load_dataset_calls a log_folder) \<or>
      c \<in> set (load_network_calls a) \<or>
      c \<in> set (print_architecture_calls a save_folder) \<or>
      (\<exists>epoch. 0 \<le> epoch \<and> epoch < epochs a \<and> epoch_call a save_folder epoch c))"

subsection \<open>Environments for the examples\<close>

text \<open>
  Every call succeeds; \<open>validate\<close> counts 3 correct and 1 failed.
\<close>

definition env_ok :: env where
  "env_ok =
     \<lparr>raises = (\<lambda>h c. None),
      train_returns = (\<lambda>h. \<lparr>loss = 1, losses = [(''p_loss'', 1 / 2)]\<rparr>),
      validate_returns = (\<lambda>h. \<lparr>loss = 1, losses = [(''p_loss'', 1 / 2)], correct = 3, failed = 1\<rparr>),
      exists_returns = (\<lambda>h. False)\<rparr>"

text \<open>
  As before, but \<open>net.to(device)\<close> raises.
\<close>

definition env_no_gpu :: env where
  "env_no_gpu = env_ok\<lparr>raises := (\<lambda>h c. if c = Net_to ''cuda:0'' then Some (External ''RuntimeError'') else None)\<rparr>"

text \<open>
  As \<open>env_ok\<close>, but \<open>validate\<close> counts nothing at all.
\<close>

definition env_no_grasps :: env where
  "env_no_grasps = env_ok\<lparr>validate_returns := (\<lambda>h. \<lparr>loss = 0, losses = [], correct = 0, failed = 0\<rparr>)\<rparr>"

subsection \<open>The calls before the epoch loop, and the dataset windows\<close>

text \<open>
  All calls of \<open>run\<close> before the loop.
\<close>

definition setup_calls :: "args \<Rightarrow> string \<Rightarrow> string \<Rightarrow> call list" where
  "setup_calls a save_folder log_folder =
     load_dataset_calls a log_folder @ load_network_calls a @ print_architecture_calls a save_folder"

text \<open>
  The fractions of the dataset between \<open>start\<close> and \<open>end\<close>, the end excluded.
\<close>

definition window :: "grasp_dataset \<Rightarrow> pyfloat set" where
  "window ds = {x. start ds \<le> x \<and> x < stop ds}"

text \<open>
  The two windows of \<open>run\<close> partition the unit interval: they cover it and are disjoint.
\<close>

definition windows_partition_unit :: "args \<Rightarrow> bool" where
  "windows_partition_unit a =
     (window (train_dataset a) \<union> window (val_dataset a) = {x. 0 \<le> x \<and> x < 1} \<and>
      window (train_dataset a) \<inter> window (val_dataset a) = {})"

subsection \<open>The configuration that a call carries\<close>


subsection \<open>The steps of a run\<close>

text \<open>
  The steps that the specification names. A dataset construction and a loader wrapping carry
  the object they construct.
\<close>

datatype step =
    Dataset_construction grasp_dataset
  | Loader_wrapping data_loader
  | Network_instantiation
  | Optimizer_construction
  | Train_step
  | Validate_step
  | Logging_step
  | Checkpoint_step

text \<open>
  The step that a call belongs to. Writing a scalar with \<open>tb.add_scalar\<close> is the logging step
  and each \<open>torch.save\<close> is part of the checkpoint step; the progress messages of
  \<open>logging.info\<close>, the summary writer, the architecture summary and the lookups are no step.
\<close>

fun step_of :: "call \<Rightarrow> step option" where
  "step_of (Dataset ds) = Some (Dataset_construction ds)"
| "step_of (DataLoader ld) = Some (Loader_wrapping ld)"
| "step_of (Network n) = Some Network_instantiation"
| "step_of Optim_Adam = Some Optimizer_construction"
| "step_of (Train epoch ld b v) = Some Train_step"
| "step_of (Validate ld b) = Some Validate_step"
| "step_of (Tb_add_scalar n x epoch) = Some Logging_step"
| "step_of (Torch_save_net p) = Some Checkpoint_step"
| "step_of (Torch_save_state_dict p) = Some Checkpoint_step"
| "step_of _ = None"

text \<open>
  The steps of a history, in the order in which they happen.
\<close>

definition steps :: "call list \<Rightarrow> step list" where
  "steps t = List.map_filter step_of t"

text \<open>
  The order as the specification states it: both datasets are constructed, then both loaders
  are wrapped, then the network and the optimizer follow, and every epoch trains, validates,
  logs and then possibly writes its checkpoint.
\<close>

definition in_spec_order :: "args \<Rightarrow> call list \<Rightarrow> bool" where
  "in_spec_order a t =
     (\<exists>eps. steps t =
        [Dataset_construction (train_dataset a), Dataset_construction (val_dataset a),
         Loader_wrapping (train_data a), Loader_wrapping (val_data a),
         Network_instantiation, Optimizer_construction] @ concat eps \<and>
        (\<forall>e\<in>set eps. \<exists>n k.
           e = [Train_step, Validate_step] @ replicate n Logging_step @
               replicate k Checkpoint_step))"

section \<open>Properties of the model\<close>

subsection \<open>Results of actions\<close>

lemma bind_Inr:
  "bind m f h = (Inr y, h') \<longleftrightarrow> (\<exists>x h1. m h = (Inr x, h1) \<and> f x h1 = (Inr y, h'))"
  by (auto simp: bind_def split: prod.splits sum.splits)

lemma call_Inr: "call env c h = (Inr u, h') \<longleftrightarrow> raises env h c = None \<and> h' = h @ [c]"
  by (auto simp: call_def split: option.splits)

lemma do_calls_Inr: "do_calls env cs h = (Inr u, h') \<Longrightarrow> h' = h @ cs"
  by (induction cs arbitrary: h) (fastforce simp: return_def bind_Inr call_Inr)+

subsection \<open>Calls appended by an action\<close>

lemma emits_return: "emits P (return x)"
  by (simp add: emits_def return_def)

lemma emits_throw: "emits P (throw e)"
  by (simp add: emits_def throw_def)

lemma emits_call: "P c \<Longrightarrow> emits P (call env c)"
  by (simp add: emits_def call_def split: option.splits)

lemma emits_bind:
  assumes "emits P m" and "\<And>x. emits P (f x)"
  shows "emits P (bind m f)"
  unfolding emits_def
proof
  fix h
  obtain r h1 where m: "m h = (r, h1)" by (cases "m h")
  from assms(1) m obtain t1 where t1: "h1 = h @ t1" "list_all P t1"
    by (auto simp: emits_def dest: spec [of _ h])
  show "\<exists>t. snd (bind m f h) = h @ t \<and> list_all P t"
  proof (cases r)
    case (Inl e)
    with m t1 show ?thesis by (simp add: bind_def)
  next
    case (Inr x)
    from assms(2) [of x] obtain t2 where "snd (f x h1) = h1 @ t2" "list_all P t2"
      by (auto simp: emits_def dest: spec [of _ h1])
    with m t1 Inr show ?thesis by (simp add: bind_def)
  qed
qed

lemma emits_do_calls: "list_all P cs \<Longrightarrow> emits P (do_calls env cs)"
  by (induction cs) (auto intro: emits_return emits_bind emits_call)

lemma emits_read: "emits P (\<lambda>h. (Inr (g h), h))"
  by (simp add: emits_def)

lemma emits_train: "P (Train ep ld b v) \<Longrightarrow> emits P (train env ep ld b v)"
  unfolding train_def by (intro emits_bind emits_call emits_read)

lemma emits_validate: "P (Validate ld b) \<Longrightarrow> emits P (validate env ld b)"
  unfolding validate_def by (intro emits_bind emits_call emits_read)


lemma emits_truediv: "emits P (truediv a b)"
  by (simp add: truediv_def emits_return emits_throw)

lemma emits_if: "emits P m \<Longrightarrow> emits P n \<Longrightarrow> emits P (if b then m else n)"
  by simp

lemma emitsD: "emits P m \<Longrightarrow> m h = (r, h') \<Longrightarrow> \<exists>t. h' = h @ t \<and> list_all P t"
  by (auto simp: emits_def dest: spec [of _ h])

subsection \<open>Fatal calls end an action\<close>

lemma fatal_append: "k < length hs \<Longrightarrow> fatal env (hs @ t) k = fatal env hs k"
  by (auto simp: fatal_def nth_append split: option.splits)

lemma fatal_last:
  "fatal env (h @ [c]) (length h) =
     (case raises env h c of
        Some e \<Rightarrow> Some e
      | None \<Rightarrow>
          if is_Validate c \<and>
             correct (validate_returns env (h @ [c])) + failed (validate_returns env (h @ [c])) = 0
          then Some ZeroDivisionError else None)"
  by (auto simp: fatal_def split: option.splits)

lemma fatal_last_raises:
  "raises env h c = Some e \<Longrightarrow> fatal env (h @ [c]) (length h) = Some e"
  by (simp add: fatal_def)

lemma fatal_last_zero:
  "raises env h c = None \<Longrightarrow> is_Validate c \<Longrightarrow>
   correct (validate_returns env (h @ [c])) + failed (validate_returns env (h @ [c])) = 0 \<Longrightarrow>
   fatal env (h @ [c]) (length h) = Some ZeroDivisionError"
  by (simp add: fatal_def)

lemma one_call_stops:
  assumes h': "h' = h @ [c]"
    and r: "\<And>e. fatal env (h @ [c]) (length h) = Some e \<Longrightarrow> r = Inl e"
  shows "(\<exists>t. h' = h @ t) \<and>
         (\<forall>k e. length h \<le> k \<and> k < length h' \<and> fatal env h' k = Some e \<longrightarrow>
            r = Inl e \<and> Suc k = length h')"
proof (intro conjI allI impI)
  show "\<exists>t. h' = h @ t" using h' by blast
next
  fix k e
  assume k: "length h \<le> k \<and> k < length h' \<and> fatal env h' k = Some e"
  with h' have kk: "k = length h" by simp
  with k h' r show "r = Inl e" by simp
  from kk h' show "Suc k = length h'" by simp
qed

lemma saf_return: "stops_at_fatal env (return x)"
  by (auto simp: stops_at_fatal_def return_def)

lemma saf_throw: "stops_at_fatal env (throw e)"
  by (auto simp: stops_at_fatal_def throw_def)

lemma saf_read: "stops_at_fatal env (\<lambda>h. (Inr (g h), h))"
  by (auto simp: stops_at_fatal_def)

lemma saf_call: "\<not> is_Validate c \<Longrightarrow> stops_at_fatal env (call env c)"
  unfolding stops_at_fatal_def
proof (intro allI impI conjI)
  fix h r h' k e
  assume nv: "\<not> is_Validate c" and c: "call env c h = (r, h')"
  from c show "\<exists>t. h' = h @ t" by (auto simp: call_def split: option.splits)
  assume k: "length h \<le> k \<and> k < length h' \<and> fatal env h' k = Some e"
  from c have h': "h' = h @ [c]" by (auto simp: call_def split: option.splits)
  with k have kk: "k = length h" by simp
  with k h' nv have "raises env h c = Some e"
    by (simp add: fatal_last split: option.splits)
  with c h' kk show "r = Inl e" "Suc k = length h'" by (auto simp: call_def)
qed

lemma saf_bind:
  assumes m: "stops_at_fatal env m" and f: "\<And>x. stops_at_fatal env (f x)"
  shows "stops_at_fatal env (bind m f)"
  unfolding stops_at_fatal_def
proof (intro allI impI)
  fix h r h'
  assume b: "bind m f h = (r, h')"
  obtain r1 h1 where mh: "m h = (r1, h1)" by (cases "m h")
  from m mh obtain t1 where h1: "h1 = h @ t1"
    and p1: "\<And>k e. length h \<le> k \<Longrightarrow> k < length h1 \<Longrightarrow> fatal env h1 k = Some e \<Longrightarrow>
               r1 = Inl e \<and> Suc k = length h1"
    unfolding stops_at_fatal_def by blast
  show "(\<exists>t. h' = h @ t) \<and>
        (\<forall>k e. length h \<le> k \<and> k < length h' \<and> fatal env h' k = Some e \<longrightarrow>
           r = Inl e \<and> Suc k = length h')"
  proof (cases r1)
    case (Inl e1)
    with b mh have "r = Inl e1" "h' = h1" by (simp_all add: bind_def)
    with Inl h1 p1 show ?thesis by auto
  next
    case (Inr x)
    with b mh have fx: "f x h1 = (r, h')" by (simp add: bind_def)
    from f [of x] fx obtain t2 where h': "h' = h1 @ t2"
      and p2: "\<And>k e. length h1 \<le> k \<Longrightarrow> k < length h' \<Longrightarrow> fatal env h' k = Some e \<Longrightarrow>
                 r = Inl e \<and> Suc k = length h'"
      unfolding stops_at_fatal_def by blast
    have "r = Inl e \<and> Suc k = length h'"
      if k: "length h \<le> k" "k < length h'" "fatal env h' k = Some e" for k e
    proof (cases "k < length h1")
      case True
      with k h' have "fatal env h1 k = Some e" by (simp add: fatal_append)
      with p1 [OF k(1) True] Inr show ?thesis by simp
    next
      case False
      then have "length h1 \<le> k" by simp
      from p2 [OF this k(2,3)] show ?thesis .
    qed
    with h1 h' show ?thesis by auto
  qed
qed

lemma saf_do_calls: "list_all (\<lambda>c. \<not> is_Validate c) cs \<Longrightarrow> stops_at_fatal env (do_calls env cs)"
  by (induction cs) (auto intro: saf_return saf_bind saf_call)

lemma saf_validate_then:
  assumes ok: "\<And>tr. correct tr + failed tr \<noteq> 0 \<Longrightarrow> stops_at_fatal env (f tr)"
    and zero: "\<And>tr h. correct tr + failed tr = 0 \<Longrightarrow> f tr h = (Inl ZeroDivisionError, h)"
  shows "stops_at_fatal env (bind (validate env ld b) f)"
  unfolding stops_at_fatal_def
proof (intro allI impI)
  fix h r h'
  assume b: "bind (validate env ld b) f h = (r, h')"
  let ?c = "Validate ld b"
  let ?tr = "validate_returns env (h @ [?c])"
  show "(\<exists>t. h' = h @ t) \<and>
        (\<forall>k e. length h \<le> k \<and> k < length h' \<and> fatal env h' k = Some e \<longrightarrow>
           r = Inl e \<and> Suc k = length h')"
  proof (cases "raises env h ?c")
    case (Some e)
    with b have "r = Inl e" "h' = h @ [?c]"
      by (simp_all add: bind_def validate_def call_def)
    with fatal_last_raises [OF Some] show ?thesis by (intro one_call_stops) auto
  next
    case None
    with b have fx: "f ?tr (h @ [?c]) = (r, h')"
      by (simp add: bind_def validate_def call_def)
    show ?thesis
    proof (cases "correct ?tr + failed ?tr = 0")
      case True
      with fx zero have "r = Inl ZeroDivisionError" "h' = h @ [?c]" by simp_all
      with fatal_last_zero [OF None _ True] show ?thesis by (intro one_call_stops) auto
    next
      case False
      from ok [OF False] fx obtain t2 where h': "h' = (h @ [?c]) @ t2"
        and p2: "\<And>k e. length (h @ [?c]) \<le> k \<Longrightarrow> k < length h' \<Longrightarrow>
                   fatal env h' k = Some e \<Longrightarrow> r = Inl e \<and> Suc k = length h'"
        unfolding stops_at_fatal_def by blast
      have "r = Inl e \<and> Suc k = length h'"
        if k: "length h \<le> k" "k < length h'" "fatal env h' k = Some e" for k e
      proof (cases "k = length h")
        case True
        have "fatal env h' k = fatal env (h @ [?c]) (length h)"
          unfolding h' True by (rule fatal_append) simp
        with None False k show ?thesis by (simp add: fatal_last)
      next
        case False
        with k(1) have "length (h @ [?c]) \<le> k" by simp
        from p2 [OF this k(2,3)] show ?thesis .
      qed
      with h' show ?thesis by auto
    qed
  qed
qed

subsection \<open>The history of a completed epoch\<close>

lemma log_validation_completed:
  assumes "log_validation env tr ep h = (Inr u, h')"
  shows "correct tr + failed tr \<noteq> 0 \<and> h' = h @ validation_log_calls tr ep"
  using assms
  by (auto simp: log_validation_def bind_Inr call_Inr truediv_def return_def throw_def
      validation_log_calls_def iou_of_def split: if_splits dest!: do_calls_Inr)

lemma save_best_completed:
  assumes "save_best env sf ep tr best h = (Inr best', h')"
  shows "correct tr + failed tr \<noteq> 0 \<and>
         h' = h @ (if iou_of tr > best \<or> ep = 0 \<or> ep mod 10 = 0
                   then checkpoint_calls sf ep (iou_of tr) else []) \<and>
         best' = (if iou_of tr > best \<or> ep = 0 \<or> ep mod 10 = 0 then iou_of tr else best)"
  using assms
  by (auto simp: save_best_def bind_Inr call_Inr truediv_def return_def throw_def
      checkpoint_calls_def iou_of_def split: if_splits)

lemma epoch_body_completed:
  assumes "epoch_body env a sf ep best h = (Inr best', h')"
  shows "correct (epoch_results env a ep h) + failed (epoch_results env a ep h) \<noteq> 0 \<and>
         h' = upto_validate env a ep h @ validation_log_calls (epoch_results env a ep h) ep @
              (if iou_of (epoch_results env a ep h) > best \<or> ep = 0 \<or> ep mod 10 = 0
               then checkpoint_calls sf ep (iou_of (epoch_results env a ep h)) else []) \<and>
         best' = (if iou_of (epoch_results env a ep h) > best \<or> ep = 0 \<or> ep mod 10 = 0
                  then iou_of (epoch_results env a ep h) else best)"
proof -
  from assms obtain trn tr h1 h2 h3 h4 h5 h6 where
    s1: "h1 = h @ [Logging_info (Fmt ''Beginning Epoch {:02d}'' [A_int ep])]" and
    s2: "train env ep (train_data a) (batches_per_epoch a) (vis a) h1 = (Inr trn, h2)" and
    s3: "h3 = h2 @ [Tb_add_scalar ''loss/train_loss'' (loss trn) ep]" and
    s4: "do_calls env (losses_calls ''train_loss/'' (losses trn) ep) h3 = (Inr (), h4)" and
    s5: "h5 = h4 @ [Logging_info (Str ''Validating...'')]" and
    s6: "validate env (val_data a) (val_batches a) h5 = (Inr tr, h6)" and
    s7: "bind (log_validation env tr ep) (\<lambda>_. save_best env sf ep tr best) h6 = (Inr best', h')"
    unfolding epoch_body_def bind_Inr call_Inr by auto
  from s2 have h2: "h2 = h1 @ [Train ep (train_data a) (batches_per_epoch a) (vis a)]"
    and trn: "trn = train_returns env h2"
    by (auto simp: train_def bind_Inr call_Inr)
  from s6 have h6: "h6 = h5 @ [Validate (val_data a) (val_batches a)]"
    and tr: "tr = validate_returns env h6"
    by (auto simp: validate_def bind_Inr call_Inr)
  from s4 have h4: "h4 = h3 @ losses_calls ''train_loss/'' (losses trn) ep"
    by (rule do_calls_Inr)
  have h6': "h6 = upto_validate env a ep h"
    using s1 h2 trn s3 h4 s5 h6
    by (simp add: upto_validate_def begin_calls_def train_log_calls_def)
  with tr have tr': "tr = epoch_results env a ep h" by (simp add: epoch_results_def)
  from s7 obtain h7 where
    l: "log_validation env tr ep h6 = (Inr (), h7)" and
    s: "save_best env sf ep tr best h7 = (Inr best', h')"
    by (auto simp: bind_Inr)
  from log_validation_completed [OF l] save_best_completed [OF s] h6' tr'
  show ?thesis by simp
qed

subsection \<open>The calls of run\<close>

lemma emits_mono: "emits P m \<Longrightarrow> (\<And>c. P c \<Longrightarrow> Q c) \<Longrightarrow> emits Q m"
  unfolding emits_def list_all_iff by metis

lemma emits_losses_calls:
  "emits (epoch_call a sf ep) (do_calls env (losses_calls p ls ep))"
  by (rule emits_do_calls) (auto simp: list_all_iff losses_calls_def epoch_call_def)

lemma emits_log_validation: "emits (epoch_call a sf ep) (log_validation env tr ep)"
  unfolding log_validation_def
  by (intro emits_bind emits_truediv emits_call emits_losses_calls)
     (simp_all add: epoch_call_def)

lemma emits_save_best: "emits (epoch_call a sf ep) (save_best env sf ep tr best)"
  unfolding save_best_def
  by (intro emits_bind emits_truediv emits_call emits_if emits_return)
     (auto simp: epoch_call_def checkpoint_calls_def)

lemma emits_epoch_body: "emits (epoch_call a sf ep) (epoch_body env a sf ep best)"
  unfolding epoch_body_def
  by (intro emits_bind emits_call emits_train emits_validate emits_losses_calls
        emits_log_validation emits_save_best)
     (simp_all add: epoch_call_def begin_calls_def)

lemma emits_epoch_loop:
  "\<forall>ep\<in>set eps. 0 \<le> ep \<and> ep < epochs a \<Longrightarrow>
   emits (run_call a sf lf) (epoch_loop env a sf eps best)"
proof (induction eps arbitrary: best)
  case Nil
  show ?case by (simp add: emits_return)
next
  case (Cons ep eps)
  have "emits (run_call a sf lf) (epoch_body env a sf ep best)"
    using Cons.prems by (intro emits_mono [OF emits_epoch_body]) (auto simp: run_call_def)
  with Cons show ?case by (auto intro!: emits_bind)
qed

lemma emits_run: "emits (run_call a sf lf) (run env a sf lf)"
  unfolding run_def
  by (intro emits_bind emits_do_calls emits_return emits_epoch_loop)
     (auto simp: list_all_iff run_call_def range_py_def)

lemma run_calls:
  assumes "run env a sf lf h = (r, h')"
  shows "\<exists>t. h' = h @ t \<and> list_all (run_call a sf lf) t"
  using emitsD [OF emits_run assms] .

subsection \<open>Exceptions in run and main\<close>

lemma not_Validate_losses_calls: "list_all (\<lambda>c. \<not> is_Validate c) (losses_calls p ls ep)"
  by (auto simp: list_all_iff losses_calls_def)

lemma saf_truediv: "stops_at_fatal env (truediv x y)"
  by (simp add: truediv_def saf_return saf_throw)

lemma saf_log_validation: "stops_at_fatal env (log_validation env tr ep)"
  unfolding log_validation_def
  by (intro saf_bind saf_truediv saf_call saf_do_calls not_Validate_losses_calls) simp_all

lemma saf_save_best: "stops_at_fatal env (save_best env sf ep tr best)"
  unfolding save_best_def
  by (intro saf_bind saf_truediv) (auto intro!: saf_bind saf_call saf_return)

lemma log_validation_zero:
  "correct tr + failed tr = 0 \<Longrightarrow>
   bind (log_validation env tr ep) f h = (Inl ZeroDivisionError, h)"
  by (simp add: log_validation_def truediv_def bind_def throw_def)

lemma saf_train: "stops_at_fatal env (train env ep ld b v)"
  unfolding train_def by (intro saf_bind saf_call saf_read) simp

lemma saf_path_exists: "stops_at_fatal env (path_exists env p)"
  unfolding path_exists_def by (intro saf_bind saf_call saf_read) simp

lemma saf_validation:
  "stops_at_fatal env
     (bind (validate env ld b) (\<lambda>tr.
        bind (log_validation env tr ep) (\<lambda>_. save_best env sf ep tr best)))"
proof (rule saf_validate_then)
  fix tr
  show "stops_at_fatal env (bind (log_validation env tr ep) (\<lambda>_. save_best env sf ep tr best))"
    by (intro saf_bind saf_log_validation saf_save_best)
next
  fix tr :: test_results and h
  assume "correct tr + failed tr = 0"
  then show "bind (log_validation env tr ep) (\<lambda>_. save_best env sf ep tr best) h =
             (Inl ZeroDivisionError, h)"
    by (rule log_validation_zero)
qed

lemma saf_epoch_body: "stops_at_fatal env (epoch_body env a sf ep best)"
  unfolding epoch_body_def
  by (intro saf_validation saf_bind saf_call saf_train saf_do_calls not_Validate_losses_calls)
     simp_all

lemma saf_epoch_loop: "stops_at_fatal env (epoch_loop env a sf eps best)"
  by (induction eps arbitrary: best) (auto intro!: saf_return saf_bind saf_epoch_body)

lemma saf_run: "stops_at_fatal env (run env a sf lf)"
  unfolding run_def
  by (intro saf_bind saf_do_calls saf_epoch_loop saf_return)
     (simp_all add: load_dataset_calls_def load_network_calls_def print_architecture_calls_def)

lemma saf_main_loop: "stops_at_fatal env (main_loop env home a ts)"
  by (induction ts arbitrary: a)
     (auto intro!: saf_return saf_bind saf_path_exists saf_call saf_run)

lemma saf_main: "stops_at_fatal env (main env home argv)"
  unfolding main_def by (rule saf_main_loop)

lemma stops_at_fatalD:
  "stops_at_fatal env m \<Longrightarrow> m h = (r, h') \<Longrightarrow> length h \<le> k \<Longrightarrow> k < length h' \<Longrightarrow>
   fatal env h' k = Some e \<Longrightarrow> r = Inl e \<and> Suc k = length h'"
  unfolding stops_at_fatal_def by blast

lemma fatal_raises: "raises env (take k hs) (hs ! k) = Some e \<Longrightarrow> fatal env hs k = Some e"
  by (simp add: fatal_def)

subsection \<open>Unfolding a concrete run\<close>

lemmas run_defs = run_def range_py_def bind_def call_def return_def throw_def
    load_dataset_calls_def load_network_calls_def print_architecture_calls_def epoch_body_def
    train_def validate_def log_validation_def save_best_def truediv_def losses_calls_def
    train_data_def val_data_def train_dataset_def val_dataset_def input_channels_def

lemma epoch_new_calls:
  "drop (length h) (upto_validate env a ep h @ xs) =
     begin_calls a ep @ train_log_calls (train_returns env (h @ begin_calls a ep)) ep @
     [Logging_info (Str ''Validating...''), Validate (val_data a) (val_batches a)] @ xs"
  by (simp add: upto_validate_def)

lemmas epoch_calls_defs = begin_calls_def train_log_calls_def losses_calls_def
  validation_log_calls_def checkpoint_calls_def

lemmas env_defs = env_ok_def env_no_gpu_def env_no_grasps_def defaults_def

subsection \<open>Runs in which no call raises, and completed runs\<close>

lemma do_calls_quiet:
  "\<forall>h c. raises env h c = None \<Longrightarrow> do_calls env cs h = (Inr (), h @ cs)"
  by (induction cs arbitrary: h) (simp_all add: return_def bind_def call_def)

lemma emits_epoch_loop_any: "emits (\<lambda>c. True) (epoch_loop env a sf eps best)"
  by (induction eps arbitrary: best)
     (auto intro!: emits_return emits_bind emits_mono [OF emits_epoch_body])

lemma run_quiet:
  assumes "\<forall>h c. raises env h c = None"
  shows "\<exists>t. snd (run env a sf lf h) = h @ setup_calls a sf lf @ t"
proof -
  let ?h = "h @ setup_calls a sf lf"
  have "run env a sf lf h = bind (epoch_loop env a sf (range_py (epochs a)) 0) (\<lambda>_. return ()) ?h"
    by (simp add: run_def bind_def do_calls_quiet [OF assms] setup_calls_def)
  moreover have "emits (\<lambda>c. True) (bind (epoch_loop env a sf (range_py (epochs a)) 0) (\<lambda>_. return ()))"
    by (intro emits_bind emits_epoch_loop_any emits_return)
  ultimately show ?thesis
    by (auto simp: emits_def dest: spec [of _ ?h])
qed

lemma run_completed:
  assumes "run env a sf lf h = (Inr u, h')"
  shows "\<exists>b. epoch_loop env a sf (range_py (epochs a)) 0 (h @ setup_calls a sf lf) = (Inr b, h')"
  using assms
  by (auto simp: run_def bind_Inr return_def setup_calls_def dest!: do_calls_Inr)

lemma epoch_loop_extends:
  assumes "epoch_loop env a sf eps best h = (r, h')"
  shows "\<exists>t. h' = h @ t"
  using emitsD [OF emits_epoch_loop_any assms] by blast

lemma run_completed_prefix:
  assumes "run env a sf lf h = (Inr u, h')"
  shows "\<exists>t. h' = h @ setup_calls a sf lf @ t"
  using run_completed [OF assms] epoch_loop_extends by fastforce

lemmas setup_defs = setup_calls_def load_dataset_calls_def load_network_calls_def
  print_architecture_calls_def

subsection \<open>The configuration of the runs that main starts\<close>




subsection \<open>The first run of main\<close>

lemma env_ok_quiet: "\<forall>g c. raises env_ok g c = None"
  by (simp add: env_ok_def)




subsection \<open>The steps of a completed run\<close>

lemma steps_Nil: "steps [] = []"
  by (simp add: steps_def map_filter_simps)

lemma steps_Cons:
  "steps (c # cs) = (case step_of c of None \<Rightarrow> steps cs | Some s \<Rightarrow> s # steps cs)"
  by (simp add: steps_def map_filter_simps split: option.splits)

lemma steps_append: "steps (xs @ ys) = steps xs @ steps ys"
  by (simp add: steps_def map_filter_def)

lemma steps_losses_calls: "steps (losses_calls p ls ep) = replicate (length ls) Logging_step"
  by (induction ls) (auto simp: losses_calls_def steps_Nil steps_Cons)

lemma steps_setup_calls:
  "steps (setup_calls a sf lf) =
     [Dataset_construction (train_dataset a), Loader_wrapping (train_data a),
      Dataset_construction (val_dataset a), Loader_wrapping (val_data a),
      Network_instantiation, Optimizer_construction]"
  by (simp add: setup_defs steps_Nil steps_Cons)

lemma epoch_body_steps:
  assumes "epoch_body env a sf ep best h = (Inr best', h')"
  shows "\<exists>t n m k. h' = h @ t \<and>
           steps t = Train_step # replicate (Suc n) Logging_step @
                     Validate_step # replicate (Suc (Suc m)) Logging_step @
                     replicate k Checkpoint_step \<and> (k = 0 \<or> k = 2)"
proof -
  let ?tr = "epoch_results env a ep h"
  let ?trn = "train_returns env (h @ begin_calls a ep)"
  let ?c = "iou_of ?tr > best \<or> ep = 0 \<or> ep mod 10 = 0"
  let ?ck = "if ?c then checkpoint_calls sf ep (iou_of ?tr) else []"
  let ?t = "begin_calls a ep @ train_log_calls ?trn ep @
      [Logging_info (Str ''Validating...''), Validate (val_data a) (val_batches a)] @
      validation_log_calls ?tr ep @ ?ck"
  from epoch_body_completed [OF assms]
  have "h' = upto_validate env a ep h @ validation_log_calls ?tr ep @ ?ck"
    by simp
  then have h': "h' = h @ ?t"
    by (simp add: upto_validate_def)
  have st: "steps ?t = Train_step # replicate (Suc (length (losses ?trn))) Logging_step @
                     Validate_step # replicate (Suc (Suc (length (losses ?tr)))) Logging_step @
                     replicate (if ?c then 2 else 0) Checkpoint_step"
    by (simp add: steps_append steps_losses_calls steps_Nil steps_Cons begin_calls_def
        train_log_calls_def validation_log_calls_def checkpoint_calls_def
        numeral_2_eq_2)
  have k: "(if ?c then 2 else 0) = (0::nat) \<or> (if ?c then 2 else 0) = (2::nat)"
    by simp
  show ?thesis
    by (rule exI [of _ ?t], rule exI [of _ "length (losses ?trn)"],
        rule exI [of _ "length (losses ?tr)"], rule exI [of _ "if ?c then 2 else 0"])
       (intro conjI h' st k)
qed

lemma epoch_loop_steps:
  assumes "epoch_loop env a sf eps best h = (Inr b, h')"
  shows "\<exists>t ss. h' = h @ t \<and> steps t = concat ss \<and> length ss = length eps \<and>
           (\<forall>e\<in>set ss. \<exists>n m k.
              e = Train_step # replicate (Suc n) Logging_step @
                  Validate_step # replicate (Suc (Suc m)) Logging_step @
                  replicate k Checkpoint_step \<and> (k = 0 \<or> k = 2))"
  using assms
proof (induction eps arbitrary: best h)
  case Nil
  then have "h' = h" by (simp add: return_def)
  then show ?case
    by (intro exI [of _ "[]"]) (simp add: steps_Nil)
next
  case (Cons ep eps)
  from Cons.prems obtain b1 h1 where
    e: "epoch_body env a sf ep best h = (Inr b1, h1)" and
    l: "epoch_loop env a sf eps b1 h1 = (Inr b, h')"
    by (auto simp: bind_Inr)
  from epoch_body_steps [OF e] obtain t1 n m k where
    t1: "h1 = h @ t1" and
    s1: "steps t1 = Train_step # replicate (Suc n) Logging_step @
                     Validate_step # replicate (Suc (Suc m)) Logging_step @
                     replicate k Checkpoint_step" "k = 0 \<or> k = 2"
    by blast
  from Cons.IH [OF l] obtain t2 ss where
    t2: "h' = h1 @ t2" "steps t2 = concat ss" "length ss = length eps" and
    ss: "\<forall>e\<in>set ss. \<exists>n m k.
              e = Train_step # replicate (Suc n) Logging_step @
                  Validate_step # replicate (Suc (Suc m)) Logging_step @
                  replicate k Checkpoint_step \<and> (k = 0 \<or> k = 2)"
    by blast
  let ?ss = "steps t1 # ss"
  have "h' = h @ (t1 @ t2)" using t1 t2 by simp
  moreover have "steps (t1 @ t2) = concat ?ss" using t2 by (simp add: steps_append)
  moreover have "length ?ss = length (ep # eps)" using t2 by simp
  moreover have "\<forall>e\<in>set ?ss. \<exists>n m k.
              e = Train_step # replicate (Suc n) Logging_step @
                  Validate_step # replicate (Suc (Suc m)) Logging_step @
                  replicate k Checkpoint_step \<and> (k = 0 \<or> k = 2)"
    using s1 ss by auto
  ultimately show ?case by blast
qed

lemma length_range_py: "length (range_py n) = nat n"
  by (simp add: range_py_def)

section \<open>The claims of the specification\<close>

subsection \<open>C1: when the model is persisted\<close>



subsection \<open>C2: the IOU is correct / (correct + failed)\<close>

text \<open>
  Claim C2. In every epoch the IOU that is logged (by \<open>logging.info\<close> and as the scalar
  \<open>loss/IOU\<close>), compared with the running best and used in the checkpoint file names equals
  \<open>correct / (correct + failed)\<close>, for the counts that \<open>validate\<close> returned in that epoch.
\<close>

theorem iou_is_ratio:
  assumes "epoch_body env a save_folder epoch best_iou h = (Inr best', h')"
    and "tr = epoch_results env a epoch h"
    and "iou = of_int (correct tr) / of_int (correct tr + failed tr)"
  shows "correct tr + failed tr \<noteq> 0 \<and>
         Logging_info (Fmt ''%d/%d = %f''
           [A_int (correct tr), A_int (correct tr + failed tr), A_float iou])
           \<in> set (drop (length h) h') \<and>
         Tb_add_scalar ''loss/IOU'' iou epoch \<in> set (drop (length h) h') \<and>
         (\<forall>x n. Tb_add_scalar ''loss/IOU'' x n \<in> set (drop (length h) h') \<longrightarrow> x = iou) \<and>
         best' = (if iou > best_iou \<or> epoch = 0 \<or> epoch mod 10 = 0 then iou else best_iou) \<and>
         (\<forall>p. Torch_save_net p \<in> set (drop (length h) h') \<longrightarrow>
            p = Os_path_join save_folder
                  (Fmt ''epoch_%02d_iou_%0.2f'' [A_int epoch, A_float iou])) \<and>
         (\<forall>p. Torch_save_state_dict p \<in> set (drop (length h) h') \<longrightarrow>
            p = Os_path_join save_folder
                  (Fmt ''epoch_%02d_iou_%0.2f_statedict.pt'' [A_int epoch, A_float iou]))"
proof -
  let ?ck = "if iou_of tr > best_iou \<or> epoch = 0 \<or> epoch mod 10 = 0
             then checkpoint_calls save_folder epoch (iou_of tr) else []"
  have iou: "iou = iou_of tr" by (simp add: assms(3) iou_of_def)
  from epoch_body_completed [OF assms(1)] assms(2)
  have nz: "correct tr + failed tr \<noteq> 0"
    and h': "h' = upto_validate env a epoch h @ validation_log_calls tr epoch @ ?ck"
    and b: "best' = (if iou_of tr > best_iou \<or> epoch = 0 \<or> epoch mod 10 = 0
                     then iou_of tr else best_iou)"
    by simp_all
  from h' have t: "drop (length h) h' =
      begin_calls a epoch @ train_log_calls (train_returns env (h @ begin_calls a epoch)) epoch @
      [Logging_info (Str ''Validating...''), Validate (val_data a) (val_batches a)] @
      validation_log_calls tr epoch @ ?ck"
    by (simp only: epoch_new_calls)
  show ?thesis
    unfolding t iou using nz b by (auto simp: epoch_calls_defs)
qed

text \<open>
  The same epoch: the counts are 3 and 1, and the scalar logged is 3/4.
\<close>

theorem iou_is_ratio_witness:
  "epoch_body env_ok defaults ''out'' 10 (9 / 10) [] =
     (Inr (3 / 4), snd (epoch_body env_ok defaults ''out'' 10 (9 / 10) [])) \<and>
   correct (epoch_results env_ok defaults 10 []) = 3 \<and>
   failed (epoch_results env_ok defaults 10 []) = 1 \<and>
   Tb_add_scalar ''loss/IOU'' (3 / 4) 10
     \<in> set (snd (epoch_body env_ok defaults ''out'' 10 (9 / 10) []))"
proof -
  have e: "epoch_body env_ok defaults ''out'' 10 (9 / 10) [] =
     (Inr (3 / 4), snd (epoch_body env_ok defaults ''out'' 10 (9 / 10) []))"
    by (rule prod_eqI) (simp_all add: run_defs env_defs)
  have c: "correct (epoch_results env_ok defaults 10 []) = 3"
    "failed (epoch_results env_ok defaults 10 []) = 1"
    by (simp_all add: epoch_results_def env_defs)
  from iou_is_ratio [OF e refl refl] e c show ?thesis by simp
qed

subsection \<open>C3: the command line and the configuration of run\<close>




subsection \<open>C4: the order of the steps of run\<close>

text \<open>
  Claim C4, amended. A run that completes executes its steps in this order: construction of
  the training dataset, wrapping of the training loader, construction of the validation dataset,
  wrapping of the validation loader, network instantiation, optimizer construction, and then
  one group of steps for each of the \<open>epochs\<close> epochs: train, logging of the training
  losses (at least one scalar), validate, logging of the validation results (at least two
  scalars), and then either no checkpoint or the two \<open>torch.save\<close> calls of one.
\<close>

theorem run_order:
  assumes "run env a save_folder log_folder h = (Inr u, h')"
  shows "\<exists>eps. steps (drop (length h) h') =
           [Dataset_construction (train_dataset a), Loader_wrapping (train_data a),
            Dataset_construction (val_dataset a), Loader_wrapping (val_data a),
            Network_instantiation, Optimizer_construction] @ concat eps \<and>
           length eps = nat (epochs a) \<and>
           (\<forall>e\<in>set eps. \<exists>n m k.
              e = Train_step # replicate (Suc n) Logging_step @
                  Validate_step # replicate (Suc (Suc m)) Logging_step @
                  replicate k Checkpoint_step \<and> (k = 0 \<or> k = 2))"
proof -
  from run_completed [OF assms] obtain b where
    "epoch_loop env a save_folder (range_py (epochs a)) 0 (h @ setup_calls a save_folder log_folder)
       = (Inr b, h')" by blast
  from epoch_loop_steps [OF this] obtain t ss where
    t: "h' = (h @ setup_calls a save_folder log_folder) @ t" "steps t = concat ss"
      "length ss = length (range_py (epochs a))" and
    ss: "\<forall>e\<in>set ss. \<exists>n m k.
              e = Train_step # replicate (Suc n) Logging_step @
                  Validate_step # replicate (Suc (Suc m)) Logging_step @
                  replicate k Checkpoint_step \<and> (k = 0 \<or> k = 2)"
    by blast
  from t have "steps (drop (length h) h') =
      [Dataset_construction (train_dataset a), Loader_wrapping (train_data a),
       Dataset_construction (val_dataset a), Loader_wrapping (val_data a),
       Network_instantiation, Optimizer_construction] @ concat ss"
    by (simp add: steps_append steps_setup_calls)
  with t(3) ss show ?thesis by (auto simp: length_range_py)
qed

text \<open>
  A completed run of one epoch, and its steps.
\<close>

theorem run_order_witness:
  "run env_ok (parse_args [Opt_epochs 1]) ''out'' ''out/logs'' [] =
     (Inr (), snd (run env_ok (parse_args [Opt_epochs 1]) ''out'' ''out/logs'' [])) \<and>
   steps (snd (run env_ok (parse_args [Opt_epochs 1]) ''out'' ''out/logs'' [])) =
     [Dataset_construction (train_dataset (parse_args [Opt_epochs 1])),
      Loader_wrapping (train_data (parse_args [Opt_epochs 1])),
      Dataset_construction (val_dataset (parse_args [Opt_epochs 1])),
      Loader_wrapping (val_data (parse_args [Opt_epochs 1])),
      Network_instantiation, Optimizer_construction,
      Train_step, Logging_step, Logging_step, Validate_step, Logging_step, Logging_step,
      Logging_step, Checkpoint_step, Checkpoint_step]"
proof -
  let ?R = "run env_ok (parse_args [Opt_epochs 1]) ''out'' ''out/logs'' []"
  have r: "?R = (Inr (), snd ?R)"
    by (rule prod_eqI) (simp_all add: run_defs env_defs parse_args_def upto.simps)
  have s: "steps (snd ?R) =
     [Dataset_construction (train_dataset (parse_args [Opt_epochs 1])),
      Loader_wrapping (train_data (parse_args [Opt_epochs 1])),
      Dataset_construction (val_dataset (parse_args [Opt_epochs 1])),
      Loader_wrapping (val_data (parse_args [Opt_epochs 1])),
      Network_instantiation, Optimizer_construction,
      Train_step, Logging_step, Logging_step, Validate_step, Logging_step, Logging_step,
      Logging_step, Checkpoint_step, Checkpoint_step]"
    by (simp add: run_defs env_defs parse_args_def upto.simps steps_Nil steps_Cons)
  from run_order [OF r] r s show ?thesis by simp
qed

text \<open>
  As stated, claim C4 says that both datasets are constructed before the loaders are wrapped, and that an
  epoch logs only after validating. A run with the default arguments in which every call
  succeeds does not have its steps in that order: the training loader is wrapped before the
  validation dataset is constructed.
\<close>

theorem spec_order_counterexample:
  "\<not> in_spec_order defaults (snd (run env_ok defaults ''out'' ''out/logs'' []))"
proof
  assume "in_spec_order defaults (snd (run env_ok defaults ''out'' ''out/logs'' []))"
  then obtain eps where
    "steps (snd (run env_ok defaults ''out'' ''out/logs'' [])) =
        [Dataset_construction (train_dataset defaults), Dataset_construction (val_dataset defaults),
         Loader_wrapping (train_data defaults), Loader_wrapping (val_data defaults),
         Network_instantiation, Optimizer_construction] @ concat eps"
    unfolding in_spec_order_def by blast
  moreover from run_quiet [OF env_ok_quiet, of defaults "''out''" "''out/logs''" "[]"]
  obtain t where
    "steps (snd (run env_ok defaults ''out'' ''out/logs'' [])) =
       steps (setup_calls defaults ''out'' ''out/logs'') @ steps t"
    by (auto simp: steps_append)
  ultimately show False by (simp add: steps_setup_calls)
qed

subsection \<open>C5: the dataset windows\<close>

text \<open>
  Claim C5, amended. For every split fraction \<open>s\<close> the training dataset is constructed over
  the window from 0 to \<open>s\<close> and the validation dataset over the window from \<open>s\<close> to 1, both
  with the same \<open>ds_rotate\<close>; these are the only datasets that \<open>run\<close> constructs, and it
  constructs both when no call raises. When \<open>0 \<le> s \<le> 1\<close> the two windows partition the unit
  interval.
\<close>

theorem windows_of_split:
  "start (train_dataset a) = 0 \<and> stop (train_dataset a) = split a \<and>
   start (val_dataset a) = split a \<and> stop (val_dataset a) = 1 \<and>
   rotate (train_dataset a) = ds_rotate a \<and> rotate (val_dataset a) = ds_rotate a \<and>
   (run env a save_folder log_folder h = (r, h') \<and> Dataset ds \<in> set (drop (length h) h') \<longrightarrow>
      ds = train_dataset a \<or> ds = val_dataset a) \<and>
   ((\<forall>g c. raises env g c = None) \<longrightarrow>
      Dataset (train_dataset a) \<in> set (drop (length h) (snd (run env a save_folder log_folder h))) \<and>
      Dataset (val_dataset a) \<in> set (drop (length h) (snd (run env a save_folder log_folder h)))) \<and>
   (0 \<le> split a \<and> split a \<le> 1 \<longrightarrow> windows_partition_unit a)"
proof -
  have A: "ds = train_dataset a \<or> ds = val_dataset a"
    if "run env a save_folder log_folder h = (r, h')" "Dataset ds \<in> set (drop (length h) h')"
  proof -
    from run_calls [OF that(1)] obtain t where
      t: "h' = h @ t" "list_all (run_call a save_folder log_folder) t" by blast
    with that(2) have "run_call a save_folder log_folder (Dataset ds)"
      by (auto simp: list_all_iff)
    then show ?thesis
      by (auto simp: run_call_def epoch_call_def setup_defs epoch_calls_defs)
  qed
  have B: "Dataset (train_dataset a) \<in> set (drop (length h) (snd (run env a save_folder log_folder h))) \<and>
      Dataset (val_dataset a) \<in> set (drop (length h) (snd (run env a save_folder log_folder h)))"
    if "\<forall>g c. raises env g c = None"
    using run_quiet [OF that, of a save_folder log_folder h] by (auto simp: setup_defs)
  have C: "windows_partition_unit a" if "0 \<le> split a \<and> split a \<le> 1"
    using that
    by (auto simp: windows_partition_unit_def window_def train_dataset_def val_dataset_def)
  have D: "start (train_dataset a) = 0 \<and> stop (train_dataset a) = split a \<and>
   start (val_dataset a) = split a \<and> stop (val_dataset a) = 1 \<and>
   rotate (train_dataset a) = ds_rotate a \<and> rotate (val_dataset a) = ds_rotate a"
    by (simp add: train_dataset_def val_dataset_def)
  from A B C D show ?thesis by blast
qed

text \<open>
  The default split 9/10.
\<close>

theorem windows_of_split_witness:
  "(\<forall>g c. raises env_ok g c = None) \<and>
   0 \<le> split defaults \<and> split defaults \<le> 1 \<and>
   windows_partition_unit defaults \<and>
   Dataset (train_dataset defaults) \<in> set (snd (run env_ok defaults ''out'' ''out/logs'' [])) \<and>
   Dataset (val_dataset defaults) \<in> set (snd (run env_ok defaults ''out'' ''out/logs'' []))"
proof -
  let ?R = "run env_ok defaults ''out'' ''out/logs'' []"
  have s: "0 \<le> split defaults" "split defaults \<le> 1"
    by (simp_all add: defaults_def)
  from windows_of_split [of defaults env_ok "''out''" "''out/logs''" "[]" "fst ?R" "snd ?R"
      "train_dataset defaults"]
    env_ok_quiet s
  show ?thesis by simp
qed

text \<open>
  As stated, claim C5 says that for every split fraction the two windows partition the unit interval.
  With \<open>--split 2\<close> the training window reaches from 0 to 2 and so leaves the unit interval.
\<close>

theorem windows_partition_counterexample:
  "\<not> windows_partition_unit (parse_args [Opt_split 2])"
proof
  assume "windows_partition_unit (parse_args [Opt_split 2])"
  then have "window (train_dataset (parse_args [Opt_split 2])) \<subseteq> {x. 0 \<le> x \<and> x < 1}"
    unfolding windows_partition_unit_def by blast
  moreover have "3 / 2 \<in> window (train_dataset (parse_args [Opt_split 2]))"
    by (simp add: window_def train_dataset_def parse_args_def defaults_def)
  ultimately have "(3 / 2 :: rat) < 1" by blast
  then show False by simp
qed

subsection \<open>C6: the files that run writes\<close>

text \<open>
  Claim C6. A run that completes has opened \<open>arch.txt\<close> in the save folder for writing and has
  printed the architecture summary into it. An epoch that completes with the checkpoint
  condition true has written two files into the save folder, named
  \<open>epoch_%02d_iou_%0.2f\<close> and \<open>epoch_%02d_iou_%0.2f_statedict.pt\<close> from the index and the IOU
  of that epoch. And \<open>run\<close> opens or saves no file under any other name.
\<close>

theorem files_written:
  "(run env a save_folder log_folder h = (Inr u, h') \<longrightarrow>
      Open_file (Os_path_join save_folder (Str ''arch.txt'')) ''w'' \<in> set (drop (length h) h') \<and>
      Summary (1 * use_depth a + 3 * use_rgb a, 300, 300)
        (To_file (Os_path_join save_folder (Str ''arch.txt''))) \<in> set (drop (length h) h')) \<and>
   (epoch_body env a save_folder epoch best_iou g = (Inr best', g') \<and>
    iou = iou_of (epoch_results env a epoch g) \<and>
    (iou > best_iou \<or> epoch = 0 \<or> epoch mod 10 = 0) \<longrightarrow>
      Torch_save_net (Os_path_join save_folder
        (Fmt ''epoch_%02d_iou_%0.2f'' [A_int epoch, A_float iou])) \<in> set (drop (length g) g') \<and>
      Torch_save_state_dict (Os_path_join save_folder
        (Fmt ''epoch_%02d_iou_%0.2f_statedict.pt'' [A_int epoch, A_float iou]))
        \<in> set (drop (length g) g')) \<and>
   (run env a save_folder log_folder h = (r, h') \<longrightarrow>
      (\<forall>p m. Open_file p m \<in> set (drop (length h) h') \<longrightarrow>
         p = Os_path_join save_folder (Str ''arch.txt'') \<and> m = ''w'') \<and>
      (\<forall>p. Torch_save_net p \<in> set (drop (length h) h') \<longrightarrow>
         (\<exists>e x. 0 \<le> e \<and> e < epochs a \<and>
            p = Os_path_join save_folder (Fmt ''epoch_%02d_iou_%0.2f'' [A_int e, A_float x]))) \<and>
      (\<forall>p. Torch_save_state_dict p \<in> set (drop (length h) h') \<longrightarrow>
         (\<exists>e x. 0 \<le> e \<and> e < epochs a \<and>
            p = Os_path_join save_folder
                  (Fmt ''epoch_%02d_iou_%0.2f_statedict.pt'' [A_int e, A_float x]))))"
proof -
  have A: "Open_file (Os_path_join save_folder (Str ''arch.txt'')) ''w'' \<in> set (drop (length h) h') \<and>
      Summary (1 * use_depth a + 3 * use_rgb a, 300, 300)
        (To_file (Os_path_join save_folder (Str ''arch.txt''))) \<in> set (drop (length h) h')"
    if "run env a save_folder log_folder h = (Inr u, h')"
    using run_completed_prefix [OF that] by (auto simp: setup_defs input_channels_def)
  have B: "Torch_save_net (Os_path_join save_folder
        (Fmt ''epoch_%02d_iou_%0.2f'' [A_int epoch, A_float iou])) \<in> set (drop (length g) g') \<and>
      Torch_save_state_dict (Os_path_join save_folder
        (Fmt ''epoch_%02d_iou_%0.2f_statedict.pt'' [A_int epoch, A_float iou]))
        \<in> set (drop (length g) g')"
    if e: "epoch_body env a save_folder epoch best_iou g = (Inr best', g')"
      and i: "iou = iou_of (epoch_results env a epoch g)"
      and c: "iou > best_iou \<or> epoch = 0 \<or> epoch mod 10 = 0"
  proof -
    from epoch_body_completed [OF e] c i
    have "g' = upto_validate env a epoch g @
            validation_log_calls (epoch_results env a epoch g) epoch @
            checkpoint_calls save_folder epoch iou"
      by auto
    then have "drop (length g) g' =
        begin_calls a epoch @ train_log_calls (train_returns env (g @ begin_calls a epoch)) epoch @
        [Logging_info (Str ''Validating...''), Validate (val_data a) (val_batches a)] @
        validation_log_calls (epoch_results env a epoch g) epoch @
        checkpoint_calls save_folder epoch iou"
      by (simp only: epoch_new_calls)
    then show ?thesis by (simp add: checkpoint_calls_def)
  qed
  have C: "(\<forall>p m. Open_file p m \<in> set (drop (length h) h') \<longrightarrow>
         p = Os_path_join save_folder (Str ''arch.txt'') \<and> m = ''w'') \<and>
      (\<forall>p. Torch_save_net p \<in> set (drop (length h) h') \<longrightarrow>
         (\<exists>e x. 0 \<le> e \<and> e < epochs a \<and>
            p = Os_path_join save_folder (Fmt ''epoch_%02d_iou_%0.2f'' [A_int e, A_float x]))) \<and>
      (\<forall>p. Torch_save_state_dict p \<in> set (drop (length h) h') \<longrightarrow>
         (\<exists>e x. 0 \<le> e \<and> e < epochs a \<and>
            p = Os_path_join save_folder
                  (Fmt ''epoch_%02d_iou_%0.2f_statedict.pt'' [A_int e, A_float x])))"
    if "run env a save_folder log_folder h = (r, h')"
  proof -
    from run_calls [OF that] obtain t where
      t: "h' = h @ t" and P: "\<forall>c\<in>set t. run_call a save_folder log_folder c"
      by (auto simp: list_all_iff)
    have 1: "p = Os_path_join save_folder (Str ''arch.txt'') \<and> m = ''w''"
      if "run_call a save_folder log_folder (Open_file p m)" for p m
      using that by (auto simp: run_call_def epoch_call_def setup_defs epoch_calls_defs)
    have 2: "\<exists>e x. 0 \<le> e \<and> e < epochs a \<and>
            p = Os_path_join save_folder (Fmt ''epoch_%02d_iou_%0.2f'' [A_int e, A_float x])"
      if "run_call a save_folder log_folder (Torch_save_net p)" for p
      using that by (auto simp: run_call_def epoch_call_def setup_defs epoch_calls_defs)
    have 3: "\<exists>e x. 0 \<le> e \<and> e < epochs a \<and>
            p = Os_path_join save_folder
                  (Fmt ''epoch_%02d_iou_%0.2f_statedict.pt'' [A_int e, A_float x])"
      if "run_call a save_folder log_folder (Torch_save_state_dict p)" for p
      using that by (auto simp: run_call_def epoch_call_def setup_defs epoch_calls_defs)
    from t P 1 2 3 show ?thesis by simp blast
  qed
  show ?thesis
  proof (intro conjI)
    show "run env a save_folder log_folder h = (Inr u, h') \<longrightarrow>
      Open_file (Os_path_join save_folder (Str ''arch.txt'')) ''w'' \<in> set (drop (length h) h') \<and>
      Summary (1 * use_depth a + 3 * use_rgb a, 300, 300)
        (To_file (Os_path_join save_folder (Str ''arch.txt''))) \<in> set (drop (length h) h')"
      by (rule impI) (erule A)
  next
    show "epoch_body env a save_folder epoch best_iou g = (Inr best', g') \<and>
      iou = iou_of (epoch_results env a epoch g) \<and>
      (iou > best_iou \<or> epoch = 0 \<or> epoch mod 10 = 0) \<longrightarrow>
      Torch_save_net (Os_path_join save_folder
        (Fmt ''epoch_%02d_iou_%0.2f'' [A_int epoch, A_float iou])) \<in> set (drop (length g) g') \<and>
      Torch_save_state_dict (Os_path_join save_folder
        (Fmt ''epoch_%02d_iou_%0.2f_statedict.pt'' [A_int epoch, A_float iou]))
        \<in> set (drop (length g) g')"
      by (rule impI, elim conjE, rule B)
  next
    show "run env a save_folder log_folder h = (r, h') \<longrightarrow>
      (\<forall>p m. Open_file p m \<in> set (drop (length h) h') \<longrightarrow>
         p = Os_path_join save_folder (Str ''arch.txt'') \<and> m = ''w'') \<and>
      (\<forall>p. Torch_save_net p \<in> set (drop (length h) h') \<longrightarrow>
         (\<exists>e x. 0 \<le> e \<and> e < epochs a \<and>
            p = Os_path_join save_folder (Fmt ''epoch_%02d_iou_%0.2f'' [A_int e, A_float x]))) \<and>
      (\<forall>p. Torch_save_state_dict p \<in> set (drop (length h) h') \<longrightarrow>
         (\<exists>e x. 0 \<le> e \<and> e < epochs a \<and>
            p = Os_path_join save_folder
                  (Fmt ''epoch_%02d_iou_%0.2f_statedict.pt'' [A_int e, A_float x])))"
      by (rule impI) (erule C)
  qed
qed

text \<open>
  A completed run of one epoch, and an epoch with index 0 and IOU 3/4.
\<close>

theorem files_written_witness:
  "run env_ok (parse_args [Opt_epochs 1]) ''out'' ''out/logs'' [] =
     (Inr (), snd (run env_ok (parse_args [Opt_epochs 1]) ''out'' ''out/logs'' [])) \<and>
   Open_file (Os_path_join ''out'' (Str ''arch.txt'')) ''w''
     \<in> set (snd (run env_ok (parse_args [Opt_epochs 1]) ''out'' ''out/logs'' [])) \<and>
   epoch_body env_ok (parse_args [Opt_epochs 1]) ''out'' 0 0 [] =
     (Inr (3 / 4), snd (epoch_body env_ok (parse_args [Opt_epochs 1]) ''out'' 0 0 [])) \<and>
   iou_of (epoch_results env_ok (parse_args [Opt_epochs 1]) 0 []) = 3 / 4 \<and>
   Torch_save_net (Os_path_join ''out'' (Fmt ''epoch_%02d_iou_%0.2f'' [A_int 0, A_float (3 / 4)]))
     \<in> set (snd (epoch_body env_ok (parse_args [Opt_epochs 1]) ''out'' 0 0 [])) \<and>
   Torch_save_state_dict
     (Os_path_join ''out'' (Fmt ''epoch_%02d_iou_%0.2f_statedict.pt'' [A_int 0, A_float (3 / 4)]))
     \<in> set (snd (epoch_body env_ok (parse_args [Opt_epochs 1]) ''out'' 0 0 []))"
proof -
  let ?a = "parse_args [Opt_epochs 1]"
  let ?R = "run env_ok ?a ''out'' ''out/logs'' []"
  let ?E = "epoch_body env_ok ?a ''out'' 0 0 []"
  have r: "?R = (Inr (), snd ?R)"
    by (rule prod_eqI) (simp_all add: run_defs env_defs parse_args_def upto.simps)
  have e: "?E = (Inr (3 / 4), snd ?E)"
    by (rule prod_eqI) (simp_all add: run_defs env_defs parse_args_def)
  have i: "iou_of (epoch_results env_ok ?a 0 []) = 3 / 4"
    by (simp add: epoch_results_def iou_of_def env_defs)
  from files_written [of env_ok ?a "''out''" "''out/logs''" "[]" "()" "snd ?R"
      0 0 "[]" "3 / 4" "snd ?E" "3 / 4" "Inr ()"] r e i
  show ?thesis by simp
qed

subsection \<open>C7: exceptions propagate\<close>

text \<open>
  Claim C7. Neither \<open>run\<close> nor \<open>main\<close> catches an exception: when a call made by \<open>run\<close> or by
  \<open>main\<close> raises, that exception is the outcome, and the raising call is the last call made
  (nothing is retried and nothing follows).
\<close>

theorem exceptions_propagate:
  "(run env a save_folder log_folder h = (r, h') \<and> length h \<le> k \<and> k < length h' \<and>
      raises env (take k h') (h' ! k) = Some e \<longrightarrow> r = Inl e \<and> Suc k = length h') \<and>
   (main env home argv g = (s, g') \<and> length g \<le> j \<and> j < length g' \<and>
      raises env (take j g') (g' ! j) = Some x \<longrightarrow> s = Inl x \<and> Suc j = length g')"
proof -
  have R: "r = Inl e \<and> Suc k = length h'"
    if "run env a save_folder log_folder h = (r, h')" "length h \<le> k" "k < length h'"
      "raises env (take k h') (h' ! k) = Some e"
    using that by (intro stops_at_fatalD [OF saf_run] fatal_raises)
  have M: "s = Inl x \<and> Suc j = length g'"
    if "main env home argv g = (s, g')" "length g \<le> j" "j < length g'"
      "raises env (take j g') (g' ! j) = Some x"
    using that by (intro stops_at_fatalD [OF saf_main] fatal_raises)
  from R M show ?thesis by blast
qed

text \<open>
  Without a GPU, \<open>net.to(device)\<close> raises: it is the 13th call of \<open>run\<close> and the 16th of
  \<open>main\<close>, and each stops there with that exception.
\<close>

theorem exceptions_propagate_witness:
  "run env_no_gpu defaults ''out'' ''out/logs'' [] =
     (Inl (External ''RuntimeError''), snd (run env_no_gpu defaults ''out'' ''out/logs'' [])) \<and>
   raises env_no_gpu (take 12 (snd (run env_no_gpu defaults ''out'' ''out/logs'' [])))
     (snd (run env_no_gpu defaults ''out'' ''out/logs'' []) ! 12) = Some (External ''RuntimeError'') \<and>
   length (snd (run env_no_gpu defaults ''out'' ''out/logs'' [])) = 13 \<and>
   main env_no_gpu ''/home/u'' [] [] =
     (Inl (External ''RuntimeError''), snd (main env_no_gpu ''/home/u'' [] [])) \<and>
   raises env_no_gpu (take 15 (snd (main env_no_gpu ''/home/u'' [] [])))
     (snd (main env_no_gpu ''/home/u'' [] []) ! 15) = Some (External ''RuntimeError'') \<and>
   length (snd (main env_no_gpu ''/home/u'' [] [])) = 16"
proof -
  let ?R = "run env_no_gpu defaults ''out'' ''out/logs'' []"
  let ?M = "main env_no_gpu ''/home/u'' [] []"
  have r: "?R = (Inl (External ''RuntimeError''), snd ?R)"
    by (rule prod_eqI) (simp_all add: run_defs env_defs)
  have rk: "raises env_no_gpu (take 12 (snd ?R)) (snd ?R ! 12) = Some (External ''RuntimeError'')"
    by (simp add: run_defs env_defs)
  have rl: "12 < length (snd ?R)"
    by (simp add: run_defs env_defs)
  have ml: "15 < length (snd ?M)"
    by (simp add: main_def parse_args_def path_exists_def configure_def joinpath_def
          OUT_PATH_def GMDATA_PATH_def INPUT_DATA_PATH_def DATASET_PATH_def run_defs env_defs)
  have m: "?M = (Inl (External ''RuntimeError''), snd ?M)"
    by (rule prod_eqI)
       (simp_all add: main_def parse_args_def path_exists_def configure_def joinpath_def
          OUT_PATH_def GMDATA_PATH_def INPUT_DATA_PATH_def DATASET_PATH_def run_defs env_defs)
  have mk: "raises env_no_gpu (take 15 (snd ?M)) (snd ?M ! 15) = Some (External ''RuntimeError'')"
    by (simp add: main_def parse_args_def path_exists_def configure_def joinpath_def
          OUT_PATH_def GMDATA_PATH_def INPUT_DATA_PATH_def DATASET_PATH_def run_defs env_defs)
  from exceptions_propagate [of env_no_gpu defaults "''out''" "''out/logs''" "[]"
      "Inl (External ''RuntimeError'')" "snd ?R" 12 "External ''RuntimeError''"
      "''/home/u''" "[]" "[]" "Inl (External ''RuntimeError'')" "snd ?M" 15 "External ''RuntimeError''"]
    r rk rl m mk ml
  show ?thesis by simp
qed

subsection \<open>C8: best_iou follows the checkpoint\<close>



subsection \<open>C9: division by zero\<close>

text \<open>
  Claim C9. The IOU is computed with no guard: when a call of \<open>validate\<close> in \<open>run\<close> returns
  \<open>correct = 0\<close> and \<open>failed = 0\<close>, \<open>run\<close> ends with \<open>ZeroDivisionError\<close>, and that call of
  \<open>validate\<close> is the last call made: the first division fails and the loop is left.
\<close>

theorem zero_division_aborts:
  assumes "run env a save_folder log_folder h = (r, h')"
    and "length h \<le> k" and "k < length h'"
    and "h' ! k = Validate ld b"
    and "raises env (take k h') (h' ! k) = None"
    and "correct (validate_returns env (take (Suc k) h')) = 0"
    and "failed (validate_returns env (take (Suc k) h')) = 0"
  shows "r = Inl ZeroDivisionError \<and> Suc k = length h'"
proof -
  from assms(4-7) have "fatal env h' k = Some ZeroDivisionError"
    by (simp add: fatal_def)
  from stops_at_fatalD [OF saf_run assms(1-3) this] show ?thesis .
qed

text \<open>
  When \<open>validate\<close> counts nothing, the run ends with its 26th call, the first \<open>validate\<close>.
\<close>

theorem zero_division_aborts_witness:
  "run env_no_grasps defaults ''out'' ''out/logs'' [] =
     (Inl ZeroDivisionError, snd (run env_no_grasps defaults ''out'' ''out/logs'' [])) \<and>
   snd (run env_no_grasps defaults ''out'' ''out/logs'' []) ! 25 = Validate (val_data defaults) 250 \<and>
   raises env_no_grasps (take 25 (snd (run env_no_grasps defaults ''out'' ''out/logs'' [])))
     (snd (run env_no_grasps defaults ''out'' ''out/logs'' []) ! 25) = None \<and>
   correct (validate_returns env_no_grasps
     (take 26 (snd (run env_no_grasps defaults ''out'' ''out/logs'' [])))) = 0 \<and>
   failed (validate_returns env_no_grasps
     (take 26 (snd (run env_no_grasps defaults ''out'' ''out/logs'' [])))) = 0 \<and>
   length (snd (run env_no_grasps defaults ''out'' ''out/logs'' [])) = 26"
proof -
  let ?R = "run env_no_grasps defaults ''out'' ''out/logs'' []"
  have r: "?R = (Inl ZeroDivisionError, snd ?R)"
    by (rule prod_eqI) (simp_all add: run_defs env_defs upto.simps)
  have l: "25 < length (snd ?R)"
    by (simp add: run_defs env_defs upto.simps)
  have v: "snd ?R ! 25 = Validate (val_data defaults) 250"
    by (simp add: run_defs env_defs upto.simps)
  have n: "raises env_no_grasps (take 25 (snd ?R)) (snd ?R ! 25) = None"
    by (simp add: env_defs)
  have c: "correct (validate_returns env_no_grasps (take (Suc 25) (snd ?R))) = 0"
    "failed (validate_returns env_no_grasps (take (Suc 25) (snd ?R))) = 0"
    by (simp_all add: env_defs)
  from zero_division_aborts [OF r _ l v n c] r v n c show ?thesis by simp
qed

subsection \<open>C10: the input channels of the network\<close>

text \<open>
  Claim C10. The network is instantiated with \<open>1 * use_depth + 3 * use_rgb\<close> input channels:
  every instantiation in \<open>run\<close> has that number, and when no call raises the instantiation
  happens. In particular, with both flags 0 the network is constructed with 0 input channels:
  \<open>run\<close> does not reject the combination.
\<close>

theorem network_input_channels:
  "(run env a save_folder log_folder h = (r, h') \<and> Network n \<in> set (drop (length h) h') \<longrightarrow>
      n = 1 * use_depth a + 3 * use_rgb a) \<and>
   ((\<forall>g c. raises env g c = None) \<longrightarrow>
      Network (1 * use_depth a + 3 * use_rgb a)
        \<in> set (drop (length h) (snd (run env a save_folder log_folder h)))) \<and>
   ((\<forall>g c. raises env g c = None) \<and> use_depth a = 0 \<and> use_rgb a = 0 \<longrightarrow>
      Network 0 \<in> set (drop (length h) (snd (run env a save_folder log_folder h))))"
proof -
  have A: "n = 1 * use_depth a + 3 * use_rgb a"
    if "run env a save_folder log_folder h = (r, h')" "Network n \<in> set (drop (length h) h')"
  proof -
    from run_calls [OF that(1)] obtain t where
      t: "h' = h @ t" "list_all (run_call a save_folder log_folder) t" by blast
    with that(2) have "run_call a save_folder log_folder (Network n)"
      by (auto simp: list_all_iff)
    then show ?thesis
      by (auto simp: run_call_def epoch_call_def setup_defs epoch_calls_defs input_channels_def)
  qed
  have B: "Network (1 * use_depth a + 3 * use_rgb a)
        \<in> set (drop (length h) (snd (run env a save_folder log_folder h)))"
    if "\<forall>g c. raises env g c = None"
    using run_quiet [OF that, of a save_folder log_folder h]
    by (auto simp: setup_defs input_channels_def)
  have C: "Network 0 \<in> set (drop (length h) (snd (run env a save_folder log_folder h)))"
    if "\<forall>g c. raises env g c = None" "use_depth a = 0" "use_rgb a = 0"
    using B [OF that(1)] that(2,3) by simp
  from A B C show ?thesis by blast
qed

text \<open>
  The command line \<open>--use-depth 0 --use-rgb 0\<close>.
\<close>

theorem network_input_channels_witness:
  "(\<forall>g c. raises env_ok g c = None) \<and>
   use_depth (parse_args [Opt_use_depth 0, Opt_use_rgb 0]) = 0 \<and>
   use_rgb (parse_args [Opt_use_depth 0, Opt_use_rgb 0]) = 0 \<and>
   Network 0 \<in> set (snd (run env_ok (parse_args [Opt_use_depth 0, Opt_use_rgb 0])
                             ''out'' ''out/logs'' []))"
proof -
  let ?a = "parse_args [Opt_use_depth 0, Opt_use_rgb 0]"
  let ?R = "run env_ok ?a ''out'' ''out/logs'' []"
  have a: "use_depth ?a = 0" "use_rgb ?a = 0"
    by (simp_all add: parse_args_def defaults_def)
  from network_input_channels [of env_ok ?a "''out''" "''out/logs''" "[]" "fst ?R" "snd ?R" 0]
    env_ok_quiet a
  show ?thesis by simp
qed

end
